theory Spec2Isabelle
  imports Main "HOL-Library.Word"
begin

unbundle bit_operations_syntax

section \<open>The binary decoder of src/protocol/decoder.js\<close>

text \<open>
  The class \<open>Decoder\<close> holds a Node.js \<open>Buffer\<close> and a read cursor \<open>offset\<close>. The buffer is
  never written, so it is a list of bytes; the cursor is a JavaScript number that the class
  only ever changes by adding integers to it, so it is an \<open>int\<close> (it can leave the range
  \<open>0..length\<close> in both directions, as the theorems below show).

  JavaScript numbers are doubles. Every number the decoder computes is an integer, so a
  number is modelled by the \<open>int\<close> it denotes. Where the language converts a number to 32 bits
  (the operators \<open>&\<close>, \<open>^\<close>, \<open><<\<close>, \<open>>>>\<close>) the conversion is written out with
  \<open>word_of_int\<close>, \<open>sint\<close> and \<open>uint\<close>. Sums and products of bytes, widths and offsets stay far
  below \<open>2 ^ 53\<close>, where double arithmetic is exact. The one number that can grow beyond
  that is the accumulator of \<open>readVarInt\<close>: its addition is modelled with the rounding of a
  double (\<open>js_add\<close> below).
\<close>

type_synonym byte = "8 word"

record Decoder =
  buffer :: "byte list"
  offset :: int

text \<open>The two exceptions the decoder can raise: the \<open>RangeError\<close> of Node's bounds-checked
  \<open>Buffer\<close> readers, and the plain \<open>Error\<close> thrown by \<open>readBigInt64BE\<close>.\<close>

datatype error = RangeError | Error

text \<open>An operation returns the value or the exception, and the decoder as it is left
  behind: after an exception the object still exists with whatever offset it had reached.\<close>

type_synonym 'a result = "(error + 'a) \<times> Decoder"

definition INT8_SIZE :: int where "INT8_SIZE = 1"
definition INT16_SIZE :: int where "INT16_SIZE = 2"
definition INT32_SIZE :: int where "INT32_SIZE = 4"
definition INT64_SIZE :: int where "INT64_SIZE = 8"

definition MOST_SIGNIFICANT_BIT :: int where "MOST_SIGNIFICANT_BIT = 0x80"
definition OTHER_BITS :: "32 word" where "OTHER_BITS = 0x7f"

subsection \<open>The platform: Node.js \<open>Buffer\<close> and the JavaScript operators\<close>

text \<open>\<open>Buffer.byteLength(buf)\<close>.\<close>

definition Buffer_byteLength :: "byte list \<Rightarrow> int" where
  "Buffer_byteLength buf = int (length buf)"

text \<open>\<open>buf[i]\<close>: the byte at an index inside the buffer, \<open>undefined\<close> (here \<open>None\<close>) at any
  other index, negative ones included. It never throws.\<close>

definition Buffer_index :: "byte list \<Rightarrow> int \<Rightarrow> byte option" where
  "Buffer_index buf i = (if 0 \<le> i \<and> i < int (length buf) then Some (buf ! nat i) else None)"

text \<open>\<open>x << i\<close> on a 32-bit operand: the shift count is \<open>i\<close> modulo 32 and the result is read
  as a signed 32-bit number.\<close>

definition js_shl :: "32 word \<Rightarrow> nat \<Rightarrow> int" where
  "js_shl x i = sint (push_bit (i mod 32) x)"

text \<open>\<open>a + b\<close> on two numbers that are integers: the double nearest to the exact sum, the
  one with the even significand when two are equally near. A double has 53 significant
  bits, so every integer up to \<open>2 ^ 53\<close> in magnitude is a double, and a larger one is
  rounded at its bit \<open>e\<close>, where \<open>e\<close> is its bit length less 53. (The sums of the decoder are
  far below \<open>2 ^ 1024\<close>, where a double would become infinite.)\<close>

function bit_length :: "int \<Rightarrow> nat" where
  "bit_length n = (if n \<le> 0 then 0 else Suc (bit_length (n div 2)))"
  by pat_completeness auto
termination
  by (relation "measure nat") auto

definition round_double :: "int \<Rightarrow> int" where
  "round_double x =
     (if \<bar>x\<bar> \<le> 2 ^ 53 then x
      else
        (let e = bit_length \<bar>x\<bar> - 53;
             q = \<bar>x\<bar> div 2 ^ e;
             r = \<bar>x\<bar> mod 2 ^ e;
             q1 = (if 2 * r > 2 ^ e \<or> (2 * r = 2 ^ e \<and> odd q) then q + 1 else q)
         in sgn x * (q1 * 2 ^ e)))"

definition js_add :: "int \<Rightarrow> int \<Rightarrow> int" where
  "js_add a b = round_double (a + b)"

text \<open>\<open>buf.readInt8(offset)\<close>, \<open>buf.readInt16BE(offset)\<close>, \<open>buf.readInt32BE(offset)\<close>: Node
  fetches the first and the last byte of the field and throws a \<open>RangeError\<close> when either is
  \<open>undefined\<close>; otherwise the bytes are combined big-endian and sign-extended.\<close>

definition Buffer_readInt8 :: "byte list \<Rightarrow> int \<Rightarrow> error + int" where
  "Buffer_readInt8 buf off =
     (case Buffer_index buf off of
        None \<Rightarrow> Inl RangeError
      | Some val \<Rightarrow> Inr (sint val))"

definition Buffer_readInt16BE :: "byte list \<Rightarrow> int \<Rightarrow> error + int" where
  "Buffer_readInt16BE buf off =
     (case (Buffer_index buf off, Buffer_index buf (off + 1)) of
        (Some first, Some lastByte) \<Rightarrow>
          Inr (sint (word_of_int (uint first * 2 ^ 8 + uint lastByte) :: 16 word))
      | _ \<Rightarrow> Inl RangeError)"

definition Buffer_readInt32BE :: "byte list \<Rightarrow> int \<Rightarrow> error + int" where
  "Buffer_readInt32BE buf off =
     (case (Buffer_index buf off, Buffer_index buf (off + 3)) of
        (Some first, Some lastByte) \<Rightarrow>
          Inr (js_shl (ucast first) 24
               + uint (buf ! nat (off + 1)) * 2 ^ 16
               + uint (buf ! nat (off + 2)) * 2 ^ 8
               + uint lastByte)
      | _ \<Rightarrow> Inl RangeError)"

text \<open>\<open>buf.slice(start, end)\<close>: Node clamps both indices into \<open>0..length\<close> (a negative index
  counts from the end) and returns the bytes between them, none when \<open>end \<le> start\<close>. It never
  throws. \<open>end\<close> is optional and defaults to the length.\<close>

definition adjustOffset :: "int \<Rightarrow> int \<Rightarrow> int" where
  "adjustOffset off len =
     (if off = 0 then 0
      else if off < 0 then (if off + len > 0 then off + len else 0)
      else if off < len then off
      else len)"

definition Buffer_slice :: "byte list \<Rightarrow> int \<Rightarrow> int option \<Rightarrow> byte list" where
  "Buffer_slice buf start end_opt =
     (let srcLength = int (length buf);
          s = adjustOffset start srcLength;
          e = (case end_opt of None \<Rightarrow> srcLength | Some en \<Rightarrow> adjustOffset en srcLength);
          newLength = (if e > s then e - s else 0)
      in take (nat newLength) (drop (nat s) buf))"

text \<open>\<open>buf.toString('utf8')\<close>: the text is represented by its UTF-8 bytes, one \<open>char\<close> each
  (the substitution of U+FFFD for malformed input is not modelled; no property below reads
  it).\<close>

definition Buffer_toString_utf8 :: "byte list \<Rightarrow> string" where
  "Buffer_toString_utf8 buf = map (\<lambda>b. char_of (unat b)) buf"

text \<open>The operators applied to \<open>currentByte\<close>, which is a byte or \<open>undefined\<close>.
  \<open>currentByte & m\<close> converts its operand with ToInt32, and \<open>undefined\<close> becomes \<open>0\<close>;
  \<open>currentByte >= m\<close> converts \<open>undefined\<close> to \<open>NaN\<close>, and every comparison with \<open>NaN\<close> is
  false.\<close>

definition js_band :: "byte option \<Rightarrow> 32 word \<Rightarrow> 32 word" where
  "js_band currentByte m = (case currentByte of None \<Rightarrow> 0 | Some b \<Rightarrow> ucast b) AND m"

definition js_ge :: "byte option \<Rightarrow> int \<Rightarrow> bool" where
  "js_ge currentByte m = (case currentByte of None \<Rightarrow> False | Some b \<Rightarrow> uint b \<ge> m)"

subsection \<open>The 64-bit integer class \<open>Long\<close>\<close>

text \<open>Modelled from the spec: the class \<open>Long\<close> of \<open>src/utils/long.js\<close> is not among the
  sources. The specification describes it as signed 64-bit arithmetic offering construction
  from an integer, unsigned right shift, bitwise and, xor, addition, left shift and two's
  complement negation; a \<open>Long\<close> is therefore a 64-bit word.\<close>

type_synonym Long = "64 word"

text \<open>Modelled from the spec: \<open>Long.fromInt(v)\<close>, construction from an integer.\<close>

definition Long_fromInt :: "int \<Rightarrow> Long" where
  "Long_fromInt v = word_of_int v"

text \<open>Modelled from the spec: \<open>x.shiftRightUnsigned(n)\<close>, the 64-bit unsigned right shift.\<close>

definition Long_shiftRightUnsigned :: "Long \<Rightarrow> nat \<Rightarrow> Long" where
  "Long_shiftRightUnsigned x n = drop_bit n x"

text \<open>Modelled from the spec: \<open>x.shiftLeft(n)\<close>, the left shift. The specification does not
  say what a count of 64 or more does; here the bits are shifted out.\<close>

definition Long_shiftLeft :: "Long \<Rightarrow> nat \<Rightarrow> Long" where
  "Long_shiftLeft x n = push_bit n x"

text \<open>Modelled from the spec: \<open>x.and(y)\<close>, bitwise and.\<close>

definition Long_and :: "Long \<Rightarrow> Long \<Rightarrow> Long" where
  "Long_and x y = x AND y"

text \<open>Modelled from the spec: \<open>x.xor(y)\<close>, bitwise exclusive or.\<close>

definition Long_xor :: "Long \<Rightarrow> Long \<Rightarrow> Long" where
  "Long_xor x y = x XOR y"

text \<open>Modelled from the spec: \<open>x.negate()\<close>, two's complement negation.\<close>

definition Long_negate :: "Long \<Rightarrow> Long" where
  "Long_negate x = - x"

text \<open>Modelled from the spec: \<open>x.add(y)\<close>, addition wrapping at 64 bits.\<close>

definition Long_add :: "Long \<Rightarrow> Long \<Rightarrow> Long" where
  "Long_add x y = x + y"

subsection \<open>Zigzag decoding\<close>

text \<open>\<open>(value >>> 1) ^ -(value & 1)\<close>: \<open>>>>\<close> and \<open>&\<close> read \<open>value\<close> modulo \<open>2 ^ 32\<close>, and
  \<open>^\<close> returns a signed 32-bit number.\<close>

definition decodeZigZag :: "int \<Rightarrow> int" where
  "decodeZigZag v =
     sint (drop_bit 1 (word_of_int v :: 32 word) XOR - ((word_of_int v :: 32 word) AND 1))"

definition decodeZigZag64 :: "Long \<Rightarrow> Long" where
  "decodeZigZag64 longValue =
     Long_xor (Long_shiftRightUnsigned longValue 1)
              (Long_negate (Long_and longValue (Long_fromInt 1)))"

text \<open>The encoder is not part of the decoder; these two follow the specification's formula
  \<open>(n << 1) xor (n >> 31)\<close> (63 for the 64-bit case), with \<open>>>\<close> the arithmetic shift.\<close>

definition spec_encodeZigZag :: "32 word \<Rightarrow> 32 word" where
  "spec_encodeZigZag n = push_bit 1 n XOR signed_drop_bit 31 n"

definition spec_encodeZigZag64 :: "Long \<Rightarrow> Long" where
  "spec_encodeZigZag64 n = push_bit 1 n XOR signed_drop_bit 63 n"

subsection \<open>The decoder\<close>

definition int32Size :: int where
  "int32Size = INT32_SIZE"

text \<open>\<open>constructor(buffer)\<close>.\<close>

definition new_Decoder :: "byte list \<Rightarrow> Decoder" where
  "new_Decoder buf = \<lparr>buffer = buf, offset = 0\<rparr>"

definition canReadBytes :: "Decoder \<Rightarrow> int \<Rightarrow> bool" where
  "canReadBytes d len \<longleftrightarrow> Buffer_byteLength (buffer d) - offset d \<ge> len"

definition canReadInt16 :: "Decoder \<Rightarrow> bool" where
  "canReadInt16 d = canReadBytes d INT16_SIZE"

definition canReadInt32 :: "Decoder \<Rightarrow> bool" where
  "canReadInt32 d = canReadBytes d INT32_SIZE"

definition canReadInt64 :: "Decoder \<Rightarrow> bool" where
  "canReadInt64 d = canReadBytes d INT64_SIZE"

text \<open>The fixed-width readers: the platform call comes first, so an exception leaves the
  offset as it was.\<close>

definition readInt8 :: "Decoder \<Rightarrow> int result" where
  "readInt8 d =
     (case Buffer_readInt8 (buffer d) (offset d) of
        Inl e \<Rightarrow> (Inl e, d)
      | Inr v \<Rightarrow> (Inr v, d\<lparr>offset := offset d + INT8_SIZE\<rparr>))"

definition readInt16 :: "Decoder \<Rightarrow> int result" where
  "readInt16 d =
     (case Buffer_readInt16BE (buffer d) (offset d) of
        Inl e \<Rightarrow> (Inl e, d)
      | Inr v \<Rightarrow> (Inr v, d\<lparr>offset := offset d + INT16_SIZE\<rparr>))"

definition readInt32 :: "Decoder \<Rightarrow> int result" where
  "readInt32 d =
     (case Buffer_readInt32BE (buffer d) (offset d) of
        Inl e \<Rightarrow> (Inl e, d)
      | Inr v \<Rightarrow> (Inr v, d\<lparr>offset := offset d + INT32_SIZE\<rparr>))"

text \<open>\<open>readBigInt64BE(buffer, offset)\<close>: the offset is never \<open>NaN\<close> here, so the first line of
  the source does not apply. When the first and the last byte exist, so do the six between
  them. The result is a \<open>BigInt\<close>, an unbounded integer.\<close>

definition readBigInt64BE :: "byte list \<Rightarrow> int \<Rightarrow> error + int" where
  "readBigInt64BE buf off =
     (case (Buffer_index buf off, Buffer_index buf (off + 7)) of
        (Some first, Some lastByte) \<Rightarrow>
          (let val = js_shl (ucast first) 24
                     + uint (buf ! nat (off + 1)) * 2 ^ 16
                     + uint (buf ! nat (off + 2)) * 2 ^ 8
                     + uint (buf ! nat (off + 3))
           in Inr (val * 2 ^ 32
                   + (uint (buf ! nat (off + 4)) * 2 ^ 24
                      + uint (buf ! nat (off + 5)) * 2 ^ 16
                      + uint (buf ! nat (off + 6)) * 2 ^ 8
                      + uint lastByte)))
      | _ \<Rightarrow> Inl Error)"

definition readInt64 :: "Decoder \<Rightarrow> int result" where
  "readInt64 d =
     (case readBigInt64BE (buffer d) (offset d) of
        Inl e \<Rightarrow> (Inl e, d)
      | Inr v \<Rightarrow> (Inr v, d\<lparr>offset := offset d + INT64_SIZE\<rparr>))"

definition readBoolean :: "Decoder \<Rightarrow> bool result" where
  "readBoolean d =
     (case readInt8 d of
        (Inl e, d1) \<Rightarrow> (Inl e, d1)
      | (Inr v, d1) \<Rightarrow> (Inr (v = 1), d1))"

text \<open>The \<open>do ... while\<close> loop of \<open>readVarInt\<close>: one call is one pass through the body, the
  test comes after it. The loop ends at the latest one position behind the buffer, where
  \<open>currentByte\<close> is \<open>undefined\<close>.\<close>

function readVarInt_loop :: "Decoder \<Rightarrow> int \<Rightarrow> nat \<Rightarrow> int \<times> Decoder" where
  "readVarInt_loop d result i =
     (let currentByte = Buffer_index (buffer d) (offset d);
          d1 = d\<lparr>offset := offset d + 1\<rparr>;
          result1 = js_add result (js_shl (js_band currentByte OTHER_BITS) i);
          i1 = i + 7
      in if js_ge currentByte MOST_SIGNIFICANT_BIT
         then readVarInt_loop d1 result1 i1
         else (result1, d1))"
  by pat_completeness auto
termination
  by (relation "measure (\<lambda>(d, result, i). nat (int (length (buffer d)) - offset d))")
     (auto simp: js_ge_def Buffer_index_def split: option.splits if_splits)

definition readVarInt :: "Decoder \<Rightarrow> int result" where
  "readVarInt d =
     (case readVarInt_loop d 0 0 of
        (result, d1) \<Rightarrow> (Inr (decodeZigZag result), d1))"

function readVarLong_loop :: "Decoder \<Rightarrow> Long \<Rightarrow> nat \<Rightarrow> Long \<times> Decoder" where
  "readVarLong_loop d result i =
     (let currentByte = Buffer_index (buffer d) (offset d);
          d1 = d\<lparr>offset := offset d + 1\<rparr>;
          result1 = Long_add result
                      (Long_shiftLeft (Long_fromInt (sint (js_band currentByte OTHER_BITS))) i);
          i1 = i + 7
      in if js_ge currentByte MOST_SIGNIFICANT_BIT
         then readVarLong_loop d1 result1 i1
         else (result1, d1))"
  by pat_completeness auto
termination
  by (relation "measure (\<lambda>(d, result, i). nat (int (length (buffer d)) - offset d))")
     (auto simp: js_ge_def Buffer_index_def split: option.splits if_splits)

definition readVarLong :: "Decoder \<Rightarrow> Long result" where
  "readVarLong d =
     (case readVarLong_loop d (Long_fromInt 0) 0 of
        (result, d1) \<Rightarrow> (Inr (decodeZigZag64 result), d1))"

text \<open>The length-prefixed readers. \<open>null\<close> is \<open>None\<close>. Nothing after the prefix can throw:
  \<open>slice\<close> clamps, and the offset is advanced by the decoded length whatever it is.\<close>

definition readString :: "Decoder \<Rightarrow> string option result" where
  "readString d =
     (case readInt16 d of
        (Inl e, d1) \<Rightarrow> (Inl e, d1)
      | (Inr byteLength, d1) \<Rightarrow>
          if byteLength = - 1 then (Inr None, d1)
          else
            (let stringBuffer =
                   Buffer_slice (buffer d1) (offset d1) (Some (offset d1 + byteLength));
                 val = Buffer_toString_utf8 stringBuffer
             in (Inr (Some val), d1\<lparr>offset := offset d1 + byteLength\<rparr>)))"

definition readVarIntString :: "Decoder \<Rightarrow> string option result" where
  "readVarIntString d =
     (case readVarInt d of
        (Inl e, d1) \<Rightarrow> (Inl e, d1)
      | (Inr byteLength, d1) \<Rightarrow>
          if byteLength = - 1 then (Inr None, d1)
          else
            (let stringBuffer =
                   Buffer_slice (buffer d1) (offset d1) (Some (offset d1 + byteLength));
                 val = Buffer_toString_utf8 stringBuffer
             in (Inr (Some val), d1\<lparr>offset := offset d1 + byteLength\<rparr>)))"

text \<open>\<open>readBytes(byteLength = this.readInt32())\<close>: the argument is optional, and the prefix is
  read only when it is absent. A caller-supplied length is taken to be an integer.\<close>

definition readBytes :: "int option \<Rightarrow> Decoder \<Rightarrow> byte list option result" where
  "readBytes arg d =
     (case (case arg of None \<Rightarrow> readInt32 d | Some n \<Rightarrow> (Inr n, d)) of
        (Inl e, d1) \<Rightarrow> (Inl e, d1)
      | (Inr byteLength, d1) \<Rightarrow>
          if byteLength = - 1 then (Inr None, d1)
          else
            (let stringBuffer =
                   Buffer_slice (buffer d1) (offset d1) (Some (offset d1 + byteLength))
             in (Inr (Some stringBuffer), d1\<lparr>offset := offset d1 + byteLength\<rparr>)))"

definition readVarIntBytes :: "Decoder \<Rightarrow> byte list option result" where
  "readVarIntBytes d =
     (case readVarInt d of
        (Inl e, d1) \<Rightarrow> (Inl e, d1)
      | (Inr byteLength, d1) \<Rightarrow>
          if byteLength = - 1 then (Inr None, d1)
          else
            (let stringBuffer =
                   Buffer_slice (buffer d1) (offset d1) (Some (offset d1 + byteLength))
             in (Inr (Some stringBuffer), d1\<lparr>offset := offset d1 + byteLength\<rparr>)))"

definition readAll :: "Decoder \<Rightarrow> byte list result" where
  "readAll d =
     (let res = Buffer_slice (buffer d) (offset d) None
      in (Inr res, d\<lparr>offset := offset d + Buffer_byteLength (buffer d)\<rparr>))"

text \<open>The \<open>for\<close> loop of the array readers, with the number of passes still to make. The
  element reader receives the decoder and moves its cursor; an exception it throws ends the
  loop.\<close>

fun readArray_loop ::
  "(Decoder \<Rightarrow> 'a result) \<Rightarrow> nat \<Rightarrow> 'a list \<Rightarrow> Decoder \<Rightarrow> 'a list result" where
  "readArray_loop reader 0 array d = (Inr array, d)"
| "readArray_loop reader (Suc n) array d =
     (case reader d of
        (Inl e, d1) \<Rightarrow> (Inl e, d1)
      | (Inr x, d1) \<Rightarrow> readArray_loop reader n (array @ [x]) d1)"

definition readArray :: "(Decoder \<Rightarrow> 'a result) \<Rightarrow> Decoder \<Rightarrow> 'a list result" where
  "readArray reader d =
     (case readInt32 d of
        (Inl e, d1) \<Rightarrow> (Inl e, d1)
      | (Inr len, d1) \<Rightarrow>
          if len = - 1 then (Inr [], d1)
          else readArray_loop reader (nat len) [] d1)"

definition readVarIntArray :: "(Decoder \<Rightarrow> 'a result) \<Rightarrow> Decoder \<Rightarrow> 'a list result" where
  "readVarIntArray reader d =
     (case readVarInt d of
        (Inl e, d1) \<Rightarrow> (Inl e, d1)
      | (Inr len, d1) \<Rightarrow>
          if len = - 1 then (Inr [], d1)
          else readArray_loop reader (nat len) [] d1)"

text \<open>\<open>readArrayAsync\<close> is \<open>readArray\<close> with an \<open>await\<close> on every element; promises are not
  modelled.

  \<open>slice(size)\<close> returns a new decoder and leaves this one as it is; \<open>forward(size)\<close>
  returns nothing. Neither checks anything. A caller-supplied size is taken to be an
  integer.\<close>

definition slice :: "int \<Rightarrow> Decoder \<Rightarrow> Decoder result" where
  "slice sz d =
     (Inr (new_Decoder (Buffer_slice (buffer d) (offset d) (Some (offset d + sz)))), d)"

definition forward :: "int \<Rightarrow> Decoder \<Rightarrow> unit result" where
  "forward sz d = (Inr (), d\<lparr>offset := offset d + sz\<rparr>)"

subsection \<open>The accumulation of a varint as the specification words it\<close>

text \<open>The specification describes \<open>readVarInt\<close> as \<open>result += (byte & 0x7f) << shift\<close>,
  \<open>shift += 7\<close>, over the bytes of the encoding, in 32-bit arithmetic whose shifts and
  additions truncate to 32 bits. \<open>spec_accumulate32\<close> is that sum on a 32-bit word, over the
  bytes of one encoding: \<open>+\<close> wraps and \<open>push_bit\<close> drops the bits shifted beyond bit 31.\<close>

fun spec_accumulate32 :: "nat \<Rightarrow> 32 word \<Rightarrow> byte list \<Rightarrow> 32 word" where
  "spec_accumulate32 shift result [] = result"
| "spec_accumulate32 shift result (b # bs) =
     spec_accumulate32 (shift + 7) (result + push_bit shift (ucast b AND 0x7f)) bs"

text \<open>The same sum with the shift count taken modulo 32, as the operator \<open><<\<close> of the
  source language takes it.\<close>

fun spec_accumulate32_mod :: "nat \<Rightarrow> 32 word \<Rightarrow> byte list \<Rightarrow> 32 word" where
  "spec_accumulate32_mod shift result [] = result"
| "spec_accumulate32_mod shift result (b # bs) =
     spec_accumulate32_mod (shift + 7)
       (result + push_bit (shift mod 32) (ucast b AND 0x7f)) bs"

text \<open>The loops are unfolded one pass at a time, by the lemmas below.\<close>

declare readVarInt_loop.simps [simp del] readVarLong_loop.simps [simp del]
  bit_length.simps [simp del]

section \<open>Zigzag round trip\<close>

lemma signed_drop_bit_31:
  "signed_drop_bit 31 (n :: 32 word) = (if bit n 31 then - 1 else 0)"
  by (rule bit_word_eqI) (auto simp: bit_signed_drop_bit_iff not_le)

lemma signed_drop_bit_63:
  "signed_drop_bit 63 (n :: 64 word) = (if bit n 63 then - 1 else 0)"
  by (rule bit_word_eqI) (auto simp: bit_signed_drop_bit_iff not_le)

lemma bit_double_word_Suc:
  "bit (n * 2 :: 'a::len word) (Suc k) \<longleftrightarrow> Suc k < LENGTH('a) \<and> bit n k"
  using bit_double_Suc_iff [of n k] by (auto simp: mult.commute bit_simps)

lemma word_of_int_sint_same: "(word_of_int (sint (w :: 'a::len word)) :: 'a word) = w"
  by simp

text \<open>The sign bit decides both the mask that the encoder applies and the lowest bit of the
  encoding, so the proof splits on it.\<close>

lemma zigzag32_inverse:
  fixes n :: "32 word"
  shows "drop_bit 1 (push_bit 1 n XOR signed_drop_bit 31 n)
         XOR - ((push_bit 1 n XOR signed_drop_bit 31 n) AND 1) = n"
proof (cases "bit n 31")
  case True
  have low: "NOT (n * 2) AND 1 = 1"
    by (simp add: and_one_eq mod_2_eq_odd)
  show ?thesis
    using True unfolding signed_drop_bit_31
    apply (simp add: low)
    apply (rule bit_word_eqI)
    apply (auto simp: bit_simps bit_double_word_Suc)
    subgoal for k by (cases "k = 31") simp_all
    done
next
  case False
  have low: "n * 2 AND 1 = 0"
    by (simp add: and_one_eq mod_2_eq_odd)
  show ?thesis
    using False unfolding signed_drop_bit_31
    apply (simp add: low)
    apply (rule bit_word_eqI)
    apply (auto simp: bit_simps bit_double_word_Suc)
    subgoal for k by (cases "k = 31") simp_all
    done
qed

lemma zigzag64_inverse:
  fixes n :: "64 word"
  shows "drop_bit 1 (push_bit 1 n XOR signed_drop_bit 63 n)
         XOR - ((push_bit 1 n XOR signed_drop_bit 63 n) AND 1) = n"
proof (cases "bit n 63")
  case True
  have low: "NOT (n * 2) AND 1 = 1"
    by (simp add: and_one_eq mod_2_eq_odd)
  show ?thesis
    using True unfolding signed_drop_bit_63
    apply (simp add: low)
    apply (rule bit_word_eqI)
    apply (auto simp: bit_simps bit_double_word_Suc)
    subgoal for k by (cases "k = 63") simp_all
    done
next
  case False
  have low: "n * 2 AND 1 = 0"
    by (simp add: and_one_eq mod_2_eq_odd)
  show ?thesis
    using False unfolding signed_drop_bit_63
    apply (simp add: low)
    apply (rule bit_word_eqI)
    apply (auto simp: bit_simps bit_double_word_Suc)
    subgoal for k by (cases "k = 63") simp_all
    done
qed

text \<open>C4: for every signed 32-bit integer \<open>n\<close> (the values \<open>sint n\<close> of a 32-bit word),
  \<open>decodeZigZag\<close> applied to the zigzag encoding \<open>(n << 1) xor (n >> 31)\<close> of \<open>n\<close> returns
  \<open>n\<close>; and for every signed 64-bit integer, \<open>decodeZigZag64\<close> applied to
  \<open>(n << 1) xor (n >> 63)\<close> returns it.\<close>

theorem decodeZigZag_roundtrip:
  "decodeZigZag (sint (spec_encodeZigZag n)) = sint n
   \<and> decodeZigZag64 (spec_encodeZigZag64 m) = m"
proof
  show "decodeZigZag (sint (spec_encodeZigZag n)) = sint n"
    unfolding decodeZigZag_def spec_encodeZigZag_def
    by (simp only: word_of_int_sint_same zigzag32_inverse)
  show "decodeZigZag64 (spec_encodeZigZag64 m) = m"
    unfolding decodeZigZag64_def spec_encodeZigZag64_def Long_xor_def Long_and_def
      Long_negate_def Long_shiftRightUnsigned_def Long_fromInt_def
    by (simp only: word_of_int_1 zigzag64_inverse)
qed

section \<open>Reading one byte of a varint\<close>

lemma Buffer_index_drop:
  assumes "0 \<le> off" "drop (nat off) buf = b # rest"
  shows "Buffer_index buf off = Some b"
proof -
  have "nat off < length buf"
    using assms(2) by (metis drop_all list.distinct(1) not_le)
  moreover have "buf ! nat off = b"
    using assms(2) by (rule nth_via_drop)
  ultimately show ?thesis
    using assms(1) by (simp add: Buffer_index_def)
qed

lemma drop_next:
  assumes "0 \<le> off" "drop (nat off) buf = b # rest"
  shows "drop (nat (off + 1)) buf = rest"
proof -
  have "nat (off + 1) = Suc (nat off)" using assms(1) by simp
  moreover have "drop (Suc (nat off)) buf = tl (drop (nat off) buf)"
    by (simp add: drop_Suc tl_drop)
  ultimately show ?thesis using assms(2) by simp
qed

lemma js_ge_Some: "js_ge (Some b) MOST_SIGNIFICANT_BIT \<longleftrightarrow> 0x80 \<le> b"
  by (simp add: js_ge_def MOST_SIGNIFICANT_BIT_def word_le_def)

lemma js_shl_0: "js_shl 0 i = 0"
  by (simp add: js_shl_def)

lemma readVarInt_loop_more:
  assumes "Buffer_index (buffer d) (offset d) = Some b" "0x80 \<le> b"
  shows "readVarInt_loop d result i =
         readVarInt_loop (d\<lparr>offset := offset d + 1\<rparr>)
           (js_add result (js_shl (ucast b AND OTHER_BITS) i)) (i + 7)"
  using assms by (subst readVarInt_loop.simps) (simp add: js_ge_Some js_band_def)

lemma readVarInt_loop_last:
  assumes "Buffer_index (buffer d) (offset d) = Some b" "\<not> 0x80 \<le> b"
  shows "readVarInt_loop d result i =
         (js_add result (js_shl (ucast b AND OTHER_BITS) i), d\<lparr>offset := offset d + 1\<rparr>)"
  using assms by (subst readVarInt_loop.simps) (simp add: js_ge_Some js_band_def)

lemma readVarInt_loop_undefined:
  assumes "Buffer_index (buffer d) (offset d) = None"
  shows "readVarInt_loop d result i = (js_add result 0, d\<lparr>offset := offset d + 1\<rparr>)"
  using assms by (subst readVarInt_loop.simps) (simp add: js_ge_def js_band_def js_shl_0)

text \<open>C6: on a buffer whose next bytes are \<open>0x96 0x01\<close>, \<open>readVarInt\<close> returns \<open>75\<close> and
  advances the offset by 2; on a buffer whose next byte is \<open>0x01\<close> it returns \<open>-1\<close> and
  advances the offset by 1.\<close>

theorem readVarInt_examples:
  "(0 \<le> offset d \<and> drop (nat (offset d)) (buffer d) = 0x96 # 0x01 # rest
      \<longrightarrow> readVarInt d = (Inr 75, d\<lparr>offset := offset d + 2\<rparr>))
   \<and> (0 \<le> offset d \<and> drop (nat (offset d)) (buffer d) = 0x01 # rest
      \<longrightarrow> readVarInt d = (Inr (- 1), d\<lparr>offset := offset d + 1\<rparr>))"
proof (intro conjI impI; elim conjE)
  assume off: "0 \<le> offset d" and bytes: "drop (nat (offset d)) (buffer d) = 0x96 # 0x01 # rest"
  let ?d1 = "d\<lparr>offset := offset d + 1\<rparr>"
  have b0: "Buffer_index (buffer d) (offset d) = Some 0x96"
    using off bytes by (rule Buffer_index_drop)
  have "drop (nat (offset d + 1)) (buffer d) = 0x01 # rest"
    using off bytes by (rule drop_next)
  then have b1: "Buffer_index (buffer ?d1) (offset ?d1) = Some 0x01"
    using off by (simp add: Buffer_index_drop)
  have small: "\<not> (0x80 :: byte) \<le> 0x01"
    by (simp add: word_le_def)
  have "readVarInt_loop d 0 0 = (150, d\<lparr>offset := offset d + 2\<rparr>)"
    by (simp add: readVarInt_loop_more [OF b0] readVarInt_loop_last [OF b1 small]
        js_shl_def OTHER_BITS_def js_add_def round_double_def)
  then show "readVarInt d = (Inr 75, d\<lparr>offset := offset d + 2\<rparr>)"
    by (simp add: readVarInt_def decodeZigZag_def)
next
  assume off: "0 \<le> offset d" and bytes: "drop (nat (offset d)) (buffer d) = 0x01 # rest"
  have b0: "Buffer_index (buffer d) (offset d) = Some 0x01"
    using off bytes by (rule Buffer_index_drop)
  have small: "\<not> (0x80 :: byte) \<le> 0x01"
    by (simp add: word_le_def)
  have "readVarInt_loop d 0 0 = (1, d\<lparr>offset := offset d + 1\<rparr>)"
    by (simp add: readVarInt_loop_last [OF b0 small] js_shl_def OTHER_BITS_def js_add_def
        round_double_def)
  then show "readVarInt d = (Inr (- 1), d\<lparr>offset := offset d + 1\<rparr>)"
    by (simp add: readVarInt_def decodeZigZag_def)
qed

text \<open>Both cases at concrete decoders, the second one in the middle of its buffer.\<close>

theorem readVarInt_examples_witness:
  "readVarInt \<lparr>buffer = [0x96, 0x01], offset = 0\<rparr>
     = (Inr 75, \<lparr>buffer = [0x96, 0x01], offset = 2\<rparr>)
   \<and> readVarInt \<lparr>buffer = [0x00, 0x01, 0x02], offset = 1\<rparr>
     = (Inr (- 1), \<lparr>buffer = [0x00, 0x01, 0x02], offset = 2\<rparr>)"
  using readVarInt_examples [of "\<lparr>buffer = [0x96, 0x01], offset = 0\<rparr>" "[]"]
    readVarInt_examples [of "\<lparr>buffer = [0x00, 0x01, 0x02], offset = 1\<rparr>" "[0x02]"]
  by simp

section \<open>The fixed-width readers\<close>

text \<open>Each fixed-width reader succeeds exactly when the whole field lies inside the buffer;
  it then advances the offset by the width of the field, and otherwise leaves the decoder as
  it was.\<close>

lemma readInt8_cases:
  "readInt8 d =
     (if 0 \<le> offset d \<and> offset d + 1 \<le> int (length (buffer d))
      then (Inr (sint (buffer d ! nat (offset d))), d\<lparr>offset := offset d + 1\<rparr>)
      else (Inl RangeError, d))"
  by (simp add: readInt8_def Buffer_readInt8_def Buffer_index_def INT8_SIZE_def)

lemma readInt16_cases:
  "readInt16 d =
     (if 0 \<le> offset d \<and> offset d + 2 \<le> int (length (buffer d))
      then (Inr (sint (word_of_int (uint (buffer d ! nat (offset d)) * 2 ^ 8
                         + uint (buffer d ! nat (offset d + 1))) :: 16 word)),
            d\<lparr>offset := offset d + 2\<rparr>)
      else (Inl RangeError, d))"
  by (simp add: readInt16_def Buffer_readInt16BE_def Buffer_index_def INT16_SIZE_def)

lemma readInt32_cases:
  "readInt32 d =
     (if 0 \<le> offset d \<and> offset d + 4 \<le> int (length (buffer d))
      then (Inr (js_shl (ucast (buffer d ! nat (offset d))) 24
                 + uint (buffer d ! nat (offset d + 1)) * 2 ^ 16
                 + uint (buffer d ! nat (offset d + 2)) * 2 ^ 8
                 + uint (buffer d ! nat (offset d + 3))),
            d\<lparr>offset := offset d + 4\<rparr>)
      else (Inl RangeError, d))"
  by (simp add: readInt32_def Buffer_readInt32BE_def Buffer_index_def INT32_SIZE_def)

lemma readInt64_cases:
  "readInt64 d =
     (if 0 \<le> offset d \<and> offset d + 8 \<le> int (length (buffer d))
      then (fst (readInt64 d), d\<lparr>offset := offset d + 8\<rparr>)
      else (Inl Error, d))"
  by (simp add: readInt64_def readBigInt64BE_def Buffer_index_def INT64_SIZE_def Let_def)

lemma readInt64_ok:
  "0 \<le> offset d \<and> offset d + 8 \<le> int (length (buffer d)) \<Longrightarrow> \<exists>v. fst (readInt64 d) = Inr v"
  by (simp add: readInt64_def readBigInt64BE_def Buffer_index_def INT64_SIZE_def Let_def)

section \<open>Null and empty sentinels\<close>

text \<open>C7: when the next two bytes decode as the 16-bit big-endian value \<open>-1\<close>, \<open>readString\<close>
  returns the null sentinel (\<open>None\<close>, not the empty string \<open>Some []\<close>) and leaves the offset
  advanced by exactly 2; and the bytes \<open>0xFF 0xFF\<close> decode as \<open>-1\<close>.\<close>

theorem readString_null:
  "(fst (readInt16 d) = Inr (- 1) \<longrightarrow> readString d = (Inr None, d\<lparr>offset := offset d + 2\<rparr>))
   \<and> (0 \<le> offset d \<and> drop (nat (offset d)) (buffer d) = 0xFF # 0xFF # rest
        \<longrightarrow> fst (readInt16 d) = Inr (- 1))"
proof (intro conjI impI; (elim conjE)?)
  assume "fst (readInt16 d) = Inr (- 1)"
  then have "readInt16 d = (Inr (- 1), d\<lparr>offset := offset d + 2\<rparr>)"
    by (simp add: readInt16_cases split: if_splits)
  then show "readString d = (Inr None, d\<lparr>offset := offset d + 2\<rparr>)"
    by (simp add: readString_def)
next
  assume off: "0 \<le> offset d" and bytes: "drop (nat (offset d)) (buffer d) = 0xFF # 0xFF # rest"
  have "length (drop (nat (offset d)) (buffer d)) \<ge> 2"
    by (simp add: bytes)
  then have len: "offset d + 2 \<le> int (length (buffer d))"
    using off by simp
  have b0: "buffer d ! nat (offset d) = 0xFF"
    using bytes by (rule nth_via_drop)
  have "drop (nat (offset d + 1)) (buffer d) = 0xFF # rest"
    using off bytes by (rule drop_next)
  then have b1: "buffer d ! nat (offset d + 1) = 0xFF"
    by (rule nth_via_drop)
  show "fst (readInt16 d) = Inr (- 1)"
    using off len by (simp add: readInt16_cases b0 b1)
qed

text \<open>The decoder over \<open>0xFF 0xFF 0x61\<close>: the payload byte \<open>0x61\<close> is not consumed.\<close>

theorem readString_null_witness:
  "readString \<lparr>buffer = [0xFF, 0xFF, 0x61], offset = 0\<rparr>
     = (Inr None, \<lparr>buffer = [0xFF, 0xFF, 0x61], offset = 2\<rparr>)"
proof -
  let ?d = "\<lparr>buffer = [0xFF, 0xFF, 0x61], offset = 0\<rparr>"
  have "0 \<le> offset ?d \<and> drop (nat (offset ?d)) (buffer ?d) = 0xFF # 0xFF # [0x61]"
    by simp
  then have "fst (readInt16 ?d) = Inr (- 1)"
    using readString_null [of ?d "[0x61]"] by blast
  then show ?thesis
    using readString_null [of ?d "[0x61]"] by simp
qed

text \<open>C8: when the 32-bit prefix decodes as \<open>-1\<close>, \<open>readArray\<close> returns the empty sequence
  (its result is a list, never the null sentinel), while \<open>readBytes\<close> without an explicit
  length returns the null sentinel \<open>None\<close>, not the empty byte sequence \<open>Some []\<close>.\<close>

theorem readArray_readBytes_minus_one:
  "fst (readInt32 d) = Inr (- 1) \<Longrightarrow>
     readArray reader d = (Inr [], d\<lparr>offset := offset d + 4\<rparr>)
     \<and> readBytes None d = (Inr None, d\<lparr>offset := offset d + 4\<rparr>)
     \<and> fst (readBytes None d) \<noteq> Inr (Some [])"
proof -
  assume "fst (readInt32 d) = Inr (- 1)"
  then have "readInt32 d = (Inr (- 1), d\<lparr>offset := offset d + 4\<rparr>)"
    by (simp add: readInt32_cases split: if_splits)
  then show ?thesis
    by (simp add: readArray_def readBytes_def)
qed

text \<open>The decoder over \<open>0xFF 0xFF 0xFF 0xFF 0x07\<close>, with \<open>readInt8\<close> as the element
  reader.\<close>

theorem readArray_readBytes_minus_one_witness:
  "fst (readInt32 \<lparr>buffer = [0xFF, 0xFF, 0xFF, 0xFF, 7], offset = 0\<rparr>) = Inr (- 1)
   \<and> readArray readInt8 \<lparr>buffer = [0xFF, 0xFF, 0xFF, 0xFF, 7], offset = 0\<rparr>
       = (Inr [], \<lparr>buffer = [0xFF, 0xFF, 0xFF, 0xFF, 7], offset = 4\<rparr>)
   \<and> readBytes None \<lparr>buffer = [0xFF, 0xFF, 0xFF, 0xFF, 7], offset = 0\<rparr>
       = (Inr None, \<lparr>buffer = [0xFF, 0xFF, 0xFF, 0xFF, 7], offset = 4\<rparr>)"
proof -
  let ?d = "\<lparr>buffer = [0xFF, 0xFF, 0xFF, 0xFF, 7], offset = 0\<rparr>"
  have h: "fst (readInt32 ?d) = Inr (- 1)"
    by (simp add: readInt32_cases js_shl_def)
  show ?thesis
    using h readArray_readBytes_minus_one [OF h, of readInt8] by simp
qed

section \<open>\<open>readAll\<close>\<close>




section \<open>Varints that run off the end of the buffer\<close>

lemma readVarLong_loop_more:
  assumes "Buffer_index (buffer d) (offset d) = Some b" "0x80 \<le> b"
  shows "readVarLong_loop d result i =
         readVarLong_loop (d\<lparr>offset := offset d + 1\<rparr>)
           (Long_add result (Long_shiftLeft (Long_fromInt (sint (ucast b AND OTHER_BITS))) i))
           (i + 7)"
  using assms by (subst readVarLong_loop.simps) (simp add: js_ge_Some js_band_def)

lemma readVarLong_loop_last:
  assumes "Buffer_index (buffer d) (offset d) = Some b" "\<not> 0x80 \<le> b"
  shows "readVarLong_loop d result i =
         (Long_add result (Long_shiftLeft (Long_fromInt (sint (ucast b AND OTHER_BITS))) i),
          d\<lparr>offset := offset d + 1\<rparr>)"
  using assms by (subst readVarLong_loop.simps) (simp add: js_ge_Some js_band_def)

lemma readVarLong_loop_undefined:
  assumes "Buffer_index (buffer d) (offset d) = None"
  shows "readVarLong_loop d result i = (result, d\<lparr>offset := offset d + 1\<rparr>)"
  using assms
  by (subst readVarLong_loop.simps)
     (simp add: js_ge_def js_band_def Long_add_def Long_shiftLeft_def Long_fromInt_def)

lemma Buffer_index_append:
  assumes "Buffer_index buf off = Some b"
  shows "Buffer_index (buf @ ys) off = Some b"
  using assms by (auto simp: Buffer_index_def nth_append split: if_splits)

lemma Buffer_index_at_end: "Buffer_index (buf @ [y]) (int (length buf)) = Some y"
  by (simp add: Buffer_index_def)

lemma Buffer_index_behind: "int (length buf) \<le> off \<Longrightarrow> Buffer_index buf off = None"
  by (simp add: Buffer_index_def)

lemma update_swap:
  "d\<lparr>offset := a, buffer := b\<rparr> = d\<lparr>buffer := b, offset := a\<rparr>"
  by (cases d) simp

lemma zero_terminates: "\<not> (0x80 :: byte) \<le> 0"
  by (simp add: word_le_def)

text \<open>When every byte from the offset to the end has its continuation bit set, the loop
  runs to the end of the buffer, reads \<open>undefined\<close> there and stops. It computes what it would
  compute with a zero byte appended to the buffer.\<close>

lemma readVarInt_loop_underrun:
  assumes "bs = drop (nat (offset d)) (buffer d)" "0 \<le> offset d"
    "offset d \<le> int (length (buffer d))" "\<forall>b\<in>set bs. 0x80 \<le> b"
  shows "readVarInt_loop d result i =
         (fst (readVarInt_loop (d\<lparr>buffer := buffer d @ [0]\<rparr>) result i),
          d\<lparr>offset := int (length (buffer d)) + 1\<rparr>)"
  using assms
proof (induction bs arbitrary: d result i)
  case Nil
  then have at_end: "offset d = int (length (buffer d))"
    by simp
  then have none: "Buffer_index (buffer d) (offset d) = None"
    by (simp add: Buffer_index_behind)
  have some: "Buffer_index (buffer (d\<lparr>buffer := buffer d @ [0]\<rparr>))
                (offset (d\<lparr>buffer := buffer d @ [0]\<rparr>)) = Some 0"
    by (simp add: at_end Buffer_index_at_end)
  show ?case
    by (simp add: readVarInt_loop_undefined [OF none]
        readVarInt_loop_last [OF some zero_terminates] js_shl_0 at_end)
next
  case (Cons b rest)
  let ?d1 = "d\<lparr>offset := offset d + 1\<rparr>"
  have bytes: "drop (nat (offset d)) (buffer d) = b # rest"
    using Cons.prems(1) by simp
  have cont: "0x80 \<le> b"
    using Cons.prems(4) by simp
  have some: "Buffer_index (buffer d) (offset d) = Some b"
    using Cons.prems(2) bytes by (rule Buffer_index_drop)
  then have some': "Buffer_index (buffer (d\<lparr>buffer := buffer d @ [0]\<rparr>))
                (offset (d\<lparr>buffer := buffer d @ [0]\<rparr>)) = Some b"
    by (simp add: Buffer_index_append)
  have rest: "rest = drop (nat (offset ?d1)) (buffer ?d1)"
    using drop_next [OF Cons.prems(2) bytes] by simp
  have inside: "offset ?d1 \<le> int (length (buffer ?d1))"
    using some by (simp add: Buffer_index_def split: if_splits)
  have ih: "readVarInt_loop ?d1 r j =
         (fst (readVarInt_loop (?d1\<lparr>buffer := buffer ?d1 @ [0]\<rparr>) r j),
          ?d1\<lparr>offset := int (length (buffer ?d1)) + 1\<rparr>)" for r j
    using Cons.IH [OF rest _ inside] Cons.prems(2,4) by simp
  show ?case
    by (simp add: readVarInt_loop_more [OF some cont] readVarInt_loop_more [OF some' cont] ih
        update_swap)
qed

lemma readVarLong_loop_underrun:
  assumes "bs = drop (nat (offset d)) (buffer d)" "0 \<le> offset d"
    "offset d \<le> int (length (buffer d))" "\<forall>b\<in>set bs. 0x80 \<le> b"
  shows "readVarLong_loop d result i =
         (fst (readVarLong_loop (d\<lparr>buffer := buffer d @ [0]\<rparr>) result i),
          d\<lparr>offset := int (length (buffer d)) + 1\<rparr>)"
  using assms
proof (induction bs arbitrary: d result i)
  case Nil
  then have at_end: "offset d = int (length (buffer d))"
    by simp
  then have none: "Buffer_index (buffer d) (offset d) = None"
    by (simp add: Buffer_index_behind)
  have some: "Buffer_index (buffer (d\<lparr>buffer := buffer d @ [0]\<rparr>))
                (offset (d\<lparr>buffer := buffer d @ [0]\<rparr>)) = Some 0"
    by (simp add: at_end Buffer_index_at_end)
  show ?case
    by (simp add: readVarLong_loop_undefined [OF none]
        readVarLong_loop_last [OF some zero_terminates] at_end
        Long_add_def Long_shiftLeft_def Long_fromInt_def)
next
  case (Cons b rest)
  let ?d1 = "d\<lparr>offset := offset d + 1\<rparr>"
  have bytes: "drop (nat (offset d)) (buffer d) = b # rest"
    using Cons.prems(1) by simp
  have cont: "0x80 \<le> b"
    using Cons.prems(4) by simp
  have some: "Buffer_index (buffer d) (offset d) = Some b"
    using Cons.prems(2) bytes by (rule Buffer_index_drop)
  then have some': "Buffer_index (buffer (d\<lparr>buffer := buffer d @ [0]\<rparr>))
                (offset (d\<lparr>buffer := buffer d @ [0]\<rparr>)) = Some b"
    by (simp add: Buffer_index_append)
  have rest: "rest = drop (nat (offset ?d1)) (buffer ?d1)"
    using drop_next [OF Cons.prems(2) bytes] by simp
  have inside: "offset ?d1 \<le> int (length (buffer ?d1))"
    using some by (simp add: Buffer_index_def split: if_splits)
  have ih: "readVarLong_loop ?d1 r j =
         (fst (readVarLong_loop (?d1\<lparr>buffer := buffer ?d1 @ [0]\<rparr>) r j),
          ?d1\<lparr>offset := int (length (buffer ?d1)) + 1\<rparr>)" for r j
    using Cons.IH [OF rest _ inside] Cons.prems(2,4) by simp
  show ?case
    by (simp add: readVarLong_loop_more [OF some cont] readVarLong_loop_more [OF some' cont] ih
        update_swap)
qed

text \<open>C10: when the bytes from the offset to the end of the buffer (possibly none) all have the
  continuation bit set, so that the encoding is cut off, \<open>readVarInt\<close> and \<open>readVarLong\<close>
  raise no error: the access behind the end acts as a terminating byte with no payload (the
  value is the one read from the buffer with a zero byte appended), an integer is returned,
  and the offset is left at \<open>length(buffer) + 1\<close>.\<close>

theorem varint_underrun:
  assumes "0 \<le> offset d" "offset d \<le> int (length (buffer d))"
    "\<forall>b\<in>set (drop (nat (offset d)) (buffer d)). 0x80 \<le> b"
  shows "readVarInt d = (fst (readVarInt (d\<lparr>buffer := buffer d @ [0]\<rparr>)),
                         d\<lparr>offset := int (length (buffer d)) + 1\<rparr>)
       \<and> (\<exists>v. fst (readVarInt d) = Inr v)
       \<and> readVarLong d = (fst (readVarLong (d\<lparr>buffer := buffer d @ [0]\<rparr>)),
                          d\<lparr>offset := int (length (buffer d)) + 1\<rparr>)
       \<and> (\<exists>v. fst (readVarLong d) = Inr v)"
proof (intro conjI)
  show "readVarInt d = (fst (readVarInt (d\<lparr>buffer := buffer d @ [0]\<rparr>)),
                         d\<lparr>offset := int (length (buffer d)) + 1\<rparr>)"
    unfolding readVarInt_def
    by (subst readVarInt_loop_underrun [OF refl assms]) (simp add: split_beta)
  show "readVarLong d = (fst (readVarLong (d\<lparr>buffer := buffer d @ [0]\<rparr>)),
                          d\<lparr>offset := int (length (buffer d)) + 1\<rparr>)"
    unfolding readVarLong_def
    by (subst readVarLong_loop_underrun [OF refl assms]) (simp add: split_beta)
  show "\<exists>v. fst (readVarInt d) = Inr v"
    by (simp add: readVarInt_def split_beta)
  show "\<exists>v. fst (readVarLong d) = Inr v"
    by (simp add: readVarLong_def split_beta)
qed


text \<open>A cut-off two-byte sequence, and an empty buffer.\<close>

theorem varint_underrun_witness:
  "readVarInt \<lparr>buffer = [0xFF, 0x80], offset = 0\<rparr>
     = (Inr (- 64), \<lparr>buffer = [0xFF, 0x80], offset = 3\<rparr>)
   \<and> readVarLong \<lparr>buffer = [0xFF, 0x80], offset = 0\<rparr>
     = (Inr (- 64), \<lparr>buffer = [0xFF, 0x80], offset = 3\<rparr>)
   \<and> readVarInt \<lparr>buffer = [], offset = 0\<rparr> = (Inr 0, \<lparr>buffer = [], offset = 1\<rparr>)"
proof -
  let ?d = "\<lparr>buffer = [0xFF, 0x80 :: byte], offset = 0\<rparr>"
  let ?e = "\<lparr>buffer = [] :: byte list, offset = 0\<rparr>"
  have cont: "\<forall>b\<in>set (drop (nat (offset ?d)) (buffer ?d)). 0x80 \<le> b"
    by (simp add: word_le_def)
  have v32: "readVarInt \<lparr>buffer = [0xFF, 0x80, 0], offset = 0\<rparr>
               = (Inr (- 64), \<lparr>buffer = [0xFF, 0x80, 0], offset = 3\<rparr>)"
    by code_simp
  have v64: "readVarLong \<lparr>buffer = [0xFF, 0x80, 0], offset = 0\<rparr>
               = (Inr (- 64), \<lparr>buffer = [0xFF, 0x80, 0], offset = 3\<rparr>)"
    by code_simp
  have v0: "readVarInt \<lparr>buffer = [0], offset = 0\<rparr> = (Inr 0, \<lparr>buffer = [0], offset = 1\<rparr>)"
    by code_simp
  show ?thesis
    using varint_underrun [of ?d] varint_underrun [of ?e] cont v32 v64 v0 by simp
qed

section \<open>\<open>readVarInt\<close> against 32-bit arithmetic\<close>

text \<open>A shifted byte is a signed 32-bit number, so an accumulator that has room for it
  below \<open>2 ^ 53\<close> is added to exactly.\<close>

lemma js_shl_bound: "\<bar>js_shl x i\<bar> \<le> 2 ^ 31"
proof -
  have "- (2 ^ 31) \<le> sint (push_bit (i mod 32) x)" "sint (push_bit (i mod 32) x) < 2 ^ 31"
    using sint_ge [of "push_bit (i mod 32) x"] sint_lt [of "push_bit (i mod 32) x"] by simp_all
  then show ?thesis
    by (simp add: js_shl_def abs_le_iff)
qed

lemma js_add_exact: "\<bar>a + b\<bar> \<le> 2 ^ 53 \<Longrightarrow> js_add a b = a + b"
  by (simp add: js_add_def round_double_def)

text \<open>Beyond \<open>2 ^ 53\<close> it is not: the odd number \<open>2 ^ 53 + 1\<close> is not a double.\<close>

lemma js_add_rounds: "js_add (2 ^ 53) 1 = 2 ^ 53"
  by code_simp

lemma js_add_js_shl:
  assumes "\<bar>result\<bar> + 2 ^ 31 \<le> 2 ^ 53"
  shows "js_add result (js_shl x i) = result + js_shl x i"
proof -
  have "\<bar>result + js_shl x i\<bar> \<le> \<bar>result\<bar> + \<bar>js_shl x i\<bar>"
    by (rule abs_triangle_ineq)
  then have "\<bar>result + js_shl x i\<bar> \<le> 2 ^ 53"
    using assms js_shl_bound [of x i] by linarith
  then show ?thesis
    by (rule js_add_exact)
qed

lemma word_of_int_js_shl: "(word_of_int (js_shl x i) :: 32 word) = push_bit (i mod 32) x"
  by (simp add: js_shl_def)

text \<open>Over one encoding (bytes \<open>bs\<close> with the continuation bit, then a byte \<open>t\<close> without
  it) the number accumulated by the loop is, modulo \<open>2 ^ 32\<close>, the 32-bit sum with the shift
  count taken modulo 32, as long as the accumulator has room for \<open>2 ^ 31\<close> per byte below
  \<open>2 ^ 53\<close>.\<close>

lemma readVarInt_loop_sequence:
  assumes "0 \<le> offset d" "drop (nat (offset d)) (buffer d) = bs @ t # rest"
    "\<forall>b\<in>set bs. 0x80 \<le> b" "\<not> 0x80 \<le> t"
    "\<bar>result\<bar> + 2 ^ 31 * (int (length bs) + 1) \<le> 2 ^ 53"
  shows "\<exists>r. readVarInt_loop d result i = (r, d\<lparr>offset := offset d + int (length bs) + 1\<rparr>)
             \<and> word_of_int r = spec_accumulate32_mod i (word_of_int result) (bs @ [t])"
  using assms
proof (induction bs arbitrary: d result i)
  case Nil
  then have some: "Buffer_index (buffer d) (offset d) = Some t"
    by (simp add: Buffer_index_drop)
  have room: "\<bar>result\<bar> + 2 ^ 31 \<le> 2 ^ 53"
    using Nil.prems(5) by simp
  show ?case
    by (simp add: readVarInt_loop_last [OF some Nil.prems(4)] js_add_js_shl [OF room]
        word_of_int_js_shl OTHER_BITS_def)
next
  case (Cons b bs)
  let ?d1 = "d\<lparr>offset := offset d + 1\<rparr>"
  let ?x = "js_shl (ucast b AND OTHER_BITS) i"
  have bytes: "drop (nat (offset d)) (buffer d) = b # (bs @ t # rest)"
    using Cons.prems(2) by simp
  have cont: "0x80 \<le> b"
    using Cons.prems(3) by simp
  have some: "Buffer_index (buffer d) (offset d) = Some b"
    using Cons.prems(1) bytes by (rule Buffer_index_drop)
  have next_bytes: "drop (nat (offset ?d1)) (buffer ?d1) = bs @ t # rest"
    using drop_next [OF Cons.prems(1) bytes] by simp
  have budget: "\<bar>result\<bar> + 2 ^ 31 + 2 ^ 31 * (int (length bs) + 1) \<le> 2 ^ 53"
    using Cons.prems(5) by (simp add: algebra_simps)
  then have room: "\<bar>result\<bar> + 2 ^ 31 \<le> 2 ^ 53"
    by simp
  have "\<bar>result + ?x\<bar> \<le> \<bar>result\<bar> + \<bar>?x\<bar>"
    by (rule abs_triangle_ineq)
  then have next_budget: "\<bar>result + ?x\<bar> + 2 ^ 31 * (int (length bs) + 1) \<le> 2 ^ 53"
    using budget js_shl_bound [of "ucast b AND OTHER_BITS" i] by linarith
  have "\<exists>r. readVarInt_loop ?d1 (result + ?x) (i + 7)
               = (r, ?d1\<lparr>offset := offset ?d1 + int (length bs) + 1\<rparr>)
           \<and> word_of_int r = spec_accumulate32_mod (i + 7) (word_of_int (result + ?x)) (bs @ [t])"
    using Cons.prems(1,3,4) next_budget by (intro Cons.IH [OF _ next_bytes]) simp_all
  then show ?case
    by (simp add: readVarInt_loop_more [OF some cont] js_add_js_shl [OF room]
        word_of_int_js_shl OTHER_BITS_def add.commute add.left_commute)
qed

lemma decodeZigZag_mod: "decodeZigZag r = decodeZigZag (sint (word_of_int r :: 32 word))"
  by (simp add: decodeZigZag_def)

lemma spec_accumulate32_small_shift:
  "shift + 7 * length bs < 39 \<Longrightarrow>
     spec_accumulate32_mod shift result bs = spec_accumulate32 shift result bs"
  by (induction bs arbitrary: shift result) simp_all

text \<open>C5, amended: for every encoding in the buffer of at most \<open>2 ^ 22\<close> bytes, \<open>readVarInt\<close>
  returns \<open>decodeZigZag\<close> of the sum \<open>result += (byte & 0x7f) << (shift mod 32)\<close> computed in
  32-bit wrap-around arithmetic, and consumes exactly the bytes of the encoding. For
  encodings of at most five bytes (shifts up to 28) this is the sum with plain truncating
  shifts. (Up to \<open>2 ^ 22\<close> bytes the accumulator of the source stays within \<open>2 ^ 53\<close>, where
  its additions are exact; beyond that they round.)\<close>

theorem readVarInt_accumulates_mod32:
  assumes "0 \<le> offset d" "drop (nat (offset d)) (buffer d) = bs @ t # rest"
    "\<forall>b\<in>set bs. 0x80 \<le> b" "\<not> 0x80 \<le> t" "length bs < 2 ^ 22"
  shows "readVarInt d = (Inr (decodeZigZag (sint (spec_accumulate32_mod 0 0 (bs @ [t])))),
                         d\<lparr>offset := offset d + int (length bs) + 1\<rparr>)
       \<and> (length bs < 5 \<longrightarrow>
            spec_accumulate32_mod 0 0 (bs @ [t]) = spec_accumulate32 0 0 (bs @ [t]))"
proof
  obtain r where run: "readVarInt_loop d 0 0 = (r, d\<lparr>offset := offset d + int (length bs) + 1\<rparr>)"
    and acc: "word_of_int r = spec_accumulate32_mod 0 (word_of_int 0) (bs @ [t])"
  proof -
    have "int (length bs) + 1 \<le> 2 ^ 22"
      using assms(5) by simp
    then have "2 ^ 31 * (int (length bs) + 1) \<le> (2 ^ 31 :: int) * 2 ^ 22"
      by (intro mult_left_mono) simp_all
    then have "\<bar>0 :: int\<bar> + 2 ^ 31 * (int (length bs) + 1) \<le> 2 ^ 53"
      by simp
    from readVarInt_loop_sequence [OF assms(1-4) this, of 0] show ?thesis
      using that by blast
  qed
  have "decodeZigZag r = decodeZigZag (sint (spec_accumulate32_mod 0 0 (bs @ [t])))"
    using acc by (subst decodeZigZag_mod) simp
  then show "readVarInt d = (Inr (decodeZigZag (sint (spec_accumulate32_mod 0 0 (bs @ [t])))),
                         d\<lparr>offset := offset d + int (length bs) + 1\<rparr>)"
    by (simp add: readVarInt_def run)
  show "length bs < 5 \<longrightarrow>
            spec_accumulate32_mod 0 0 (bs @ [t]) = spec_accumulate32 0 0 (bs @ [t])"
    by (simp add: spec_accumulate32_small_shift)
qed

text \<open>C5 as stated fails on an encoding of six bytes. The sixth byte is shifted by 35: the
  source language shifts it by \<open>35 mod 32 = 3\<close>, so \<open>readVarInt\<close> returns 4, while a shift that
  truncates to 32 bits leaves nothing of it and the sum of the specification decodes to 0.\<close>

theorem readVarInt_long_sequence_counterexample:
  "fst (readVarInt \<lparr>buffer = [0x80, 0x80, 0x80, 0x80, 0x80, 0x01], offset = 0\<rparr>) = Inr 4
   \<and> decodeZigZag (sint (spec_accumulate32 0 0 [0x80, 0x80, 0x80, 0x80, 0x80, 0x01])) = 0"
  by code_simp

text \<open>The six-byte encoding above, and a five-byte encoding of the value at the 32-bit
  boundary, followed by an unread byte.\<close>

theorem readVarInt_accumulates_mod32_witness:
  "readVarInt \<lparr>buffer = [0x80, 0x80, 0x80, 0x80, 0x80, 0x01], offset = 0\<rparr>
     = (Inr 4, \<lparr>buffer = [0x80, 0x80, 0x80, 0x80, 0x80, 0x01], offset = 6\<rparr>)
   \<and> readVarInt \<lparr>buffer = [0xFF, 0xFF, 0xFF, 0xFF, 0x0F, 0x33], offset = 0\<rparr>
     = (Inr (- 2147483648), \<lparr>buffer = [0xFF, 0xFF, 0xFF, 0xFF, 0x0F, 0x33], offset = 5\<rparr>)
   \<and> spec_accumulate32 0 0 [0xFF, 0xFF, 0xFF, 0xFF, 0x0F] = 0xFFFFFFFF"
proof -
  let ?d = "\<lparr>buffer = [0x80, 0x80, 0x80, 0x80, 0x80, 0x01 :: byte], offset = 0\<rparr>"
  let ?e = "\<lparr>buffer = [0xFF, 0xFF, 0xFF, 0xFF, 0x0F, 0x33 :: byte], offset = 0\<rparr>"
  have d1: "drop (nat (offset ?d)) (buffer ?d) = [0x80, 0x80, 0x80, 0x80, 0x80] @ 0x01 # []"
    by simp
  have d2: "\<forall>b\<in>set [0x80, 0x80, 0x80, 0x80, 0x80 :: byte]. 0x80 \<le> b"
    by simp
  have d3: "\<not> (0x80 :: byte) \<le> 0x01"
    by (simp add: word_le_def)
  have e1: "drop (nat (offset ?e)) (buffer ?e) = [0xFF, 0xFF, 0xFF, 0xFF] @ 0x0F # [0x33]"
    by simp
  have e2: "\<forall>b\<in>set [0xFF, 0xFF, 0xFF, 0xFF :: byte]. 0x80 \<le> b"
    by (simp add: word_le_def)
  have e3: "\<not> (0x80 :: byte) \<le> 0x0F"
    by (simp add: word_le_def)
  have vd: "decodeZigZag (sint (spec_accumulate32_mod 0 0 [0x80, 0x80, 0x80, 0x80, 0x80, 0x01])) = 4"
    by code_simp
  have ve: "spec_accumulate32 0 0 [0xFF, 0xFF, 0xFF, 0xFF, 0x0F] = 0xFFFFFFFF"
    by code_simp
  have vz: "decodeZigZag (sint (0xFFFFFFFF :: 32 word)) = - 2147483648"
    by code_simp
  show ?thesis
    using readVarInt_accumulates_mod32 [of ?d "[0x80, 0x80, 0x80, 0x80, 0x80]" "0x01" "[]"]
      readVarInt_accumulates_mod32 [of ?e "[0xFF, 0xFF, 0xFF, 0xFF]" "0x0F" "[0x33]"]
      d1 d2 d3 e1 e2 e3 vd ve vz
    by simp
qed

section \<open>Reads that need more bytes than remain\<close>

text \<open>A slice whose end lies behind the buffer is cut at the end of the buffer.\<close>

lemma Buffer_slice_truncated:
  assumes "0 \<le> off" "int (length buf) - off < n"
  shows "Buffer_slice buf off (Some (off + n)) = drop (nat off) buf"
  using assms by (auto simp: Buffer_slice_def adjustOffset_def Let_def)

lemma readInt16_Inr:
  assumes "readInt16 d = (Inr len, d1)"
  shows "0 \<le> offset d \<and> offset d + 2 \<le> int (length (buffer d)) \<and> d1 = d\<lparr>offset := offset d + 2\<rparr>"
  using assms by (simp add: readInt16_cases split: if_splits)

lemma readInt32_Inr:
  assumes "readInt32 d = (Inr len, d1)"
  shows "0 \<le> offset d \<and> offset d + 4 \<le> int (length (buffer d)) \<and> d1 = d\<lparr>offset := offset d + 4\<rparr>"
  using assms by (simp add: readInt32_cases split: if_splits)

lemma readInt8_Inr:
  assumes "readInt8 d = (Inr v, d1)"
  shows "0 \<le> offset d \<and> offset d + 1 \<le> int (length (buffer d)) \<and> d1 = d\<lparr>offset := offset d + 1\<rparr>"
  using assms by (simp add: readInt8_cases split: if_splits)

lemma readInt64_Inr:
  assumes "readInt64 d = (Inr v, d1)"
  shows "0 \<le> offset d \<and> offset d + 8 \<le> int (length (buffer d)) \<and> d1 = d\<lparr>offset := offset d + 8\<rparr>"
proof -
  have "readInt64 d = (if 0 \<le> offset d \<and> offset d + 8 \<le> int (length (buffer d))
      then (fst (readInt64 d), d\<lparr>offset := offset d + 8\<rparr>)
      else (Inl Error, d))"
    by (rule readInt64_cases)
  with assms show ?thesis
    by (cases "0 \<le> offset d \<and> offset d + 8 \<le> int (length (buffer d))") auto
qed

text \<open>C1, amended: a fixed-width read (\<open>readInt8\<close>, \<open>readInt16\<close>, \<open>readInt32\<close>, \<open>readInt64\<close>)
  that needs more bytes than remain fails at once with an exception (\<open>RangeError\<close>, or
  \<open>Error\<close> for \<open>readInt64\<close>), returns no value and leaves the offset as it was. A
  length-prefixed read (\<open>readString\<close>, \<open>readBytes\<close>) whose decoded length is not negative and
  exceeds the remaining bytes does not fail: it returns the bytes that remain, fewer than the
  length says, and advances the offset by the full decoded length.\<close>

theorem reads_beyond_the_end:
  "(int (length (buffer d)) - offset d < 1 \<longrightarrow> readInt8 d = (Inl RangeError, d))
   \<and> (int (length (buffer d)) - offset d < 2 \<longrightarrow> readInt16 d = (Inl RangeError, d))
   \<and> (int (length (buffer d)) - offset d < 4 \<longrightarrow> readInt32 d = (Inl RangeError, d))
   \<and> (int (length (buffer d)) - offset d < 8 \<longrightarrow> readInt64 d = (Inl Error, d))
   \<and> (readInt16 d = (Inr len, d1) \<and> 0 \<le> len \<and> int (length (buffer d1)) - offset d1 < len
        \<longrightarrow> readString d =
              (Inr (Some (Buffer_toString_utf8 (drop (nat (offset d1)) (buffer d1)))),
               d1\<lparr>offset := offset d1 + len\<rparr>))
   \<and> (readInt32 d = (Inr len, d1) \<and> 0 \<le> len \<and> int (length (buffer d1)) - offset d1 < len
        \<longrightarrow> readBytes None d =
              (Inr (Some (drop (nat (offset d1)) (buffer d1))),
               d1\<lparr>offset := offset d1 + len\<rparr>))"
proof (intro conjI impI)
  show "readInt8 d = (Inl RangeError, d)" if "int (length (buffer d)) - offset d < 1"
    using that by (simp add: readInt8_cases)
  show "readInt16 d = (Inl RangeError, d)" if "int (length (buffer d)) - offset d < 2"
    using that by (simp add: readInt16_cases)
  show "readInt32 d = (Inl RangeError, d)" if "int (length (buffer d)) - offset d < 4"
    using that by (simp add: readInt32_cases)
  show "readInt64 d = (Inl Error, d)" if "int (length (buffer d)) - offset d < 8"
    using that by (subst readInt64_cases) simp
next
  assume a: "readInt16 d = (Inr len, d1) \<and> 0 \<le> len \<and> int (length (buffer d1)) - offset d1 < len"
  then have "0 \<le> offset d1"
    using readInt16_Inr [of d len d1] by auto
  then have "Buffer_slice (buffer d1) (offset d1) (Some (offset d1 + len))
               = drop (nat (offset d1)) (buffer d1)"
    using a by (simp add: Buffer_slice_truncated)
  then show "readString d =
              (Inr (Some (Buffer_toString_utf8 (drop (nat (offset d1)) (buffer d1)))),
               d1\<lparr>offset := offset d1 + len\<rparr>)"
    using a by (auto simp: readString_def)
next
  assume a: "readInt32 d = (Inr len, d1) \<and> 0 \<le> len \<and> int (length (buffer d1)) - offset d1 < len"
  then have "0 \<le> offset d1"
    using readInt32_Inr [of d len d1] by auto
  then have "Buffer_slice (buffer d1) (offset d1) (Some (offset d1 + len))
               = drop (nat (offset d1)) (buffer d1)"
    using a by (simp add: Buffer_slice_truncated)
  then show "readBytes None d =
              (Inr (Some (drop (nat (offset d1)) (buffer d1))),
               d1\<lparr>offset := offset d1 + len\<rparr>)"
    using a by (auto simp: readBytes_def)
qed

text \<open>C1 as stated fails for the length-prefixed reads: with a prefix of 5 and two bytes of
  payload, \<open>readString\<close> and \<open>readBytes\<close> return the two bytes and move the offset behind
  the end of the buffer.\<close>

theorem length_prefixed_truncation_counterexample:
  "readString \<lparr>buffer = [0x00, 0x05, 0x61, 0x62], offset = 0\<rparr>
     = (Inr (Some ''ab''), \<lparr>buffer = [0x00, 0x05, 0x61, 0x62], offset = 7\<rparr>)
   \<and> readBytes None \<lparr>buffer = [0x00, 0x00, 0x00, 0x05, 0x01, 0x02], offset = 0\<rparr>
     = (Inr (Some [0x01, 0x02]), \<lparr>buffer = [0x00, 0x00, 0x00, 0x05, 0x01, 0x02], offset = 9\<rparr>)"
  by code_simp

text \<open>Each fixed-width read on a buffer that is too short for it, and the two truncated
  payloads.\<close>

theorem reads_beyond_the_end_witness:
  "readInt8 \<lparr>buffer = [], offset = 0\<rparr> = (Inl RangeError, \<lparr>buffer = [], offset = 0\<rparr>)
   \<and> readInt16 \<lparr>buffer = [0x01], offset = 0\<rparr> = (Inl RangeError, \<lparr>buffer = [0x01], offset = 0\<rparr>)
   \<and> readInt32 \<lparr>buffer = [0x01, 0x02], offset = 0\<rparr>
        = (Inl RangeError, \<lparr>buffer = [0x01, 0x02], offset = 0\<rparr>)
   \<and> readInt64 \<lparr>buffer = [1, 2, 3, 4, 5, 6, 7, 8], offset = 1\<rparr>
        = (Inl Error, \<lparr>buffer = [1, 2, 3, 4, 5, 6, 7, 8], offset = 1\<rparr>)
   \<and> readString \<lparr>buffer = [0x00, 0x05, 0x61, 0x62], offset = 0\<rparr>
        = (Inr (Some ''ab''), \<lparr>buffer = [0x00, 0x05, 0x61, 0x62], offset = 7\<rparr>)
   \<and> readBytes None \<lparr>buffer = [0x00, 0x00, 0x00, 0x05, 0x01, 0x02], offset = 0\<rparr>
        = (Inr (Some [0x01, 0x02]), \<lparr>buffer = [0x00, 0x00, 0x00, 0x05, 0x01, 0x02], offset = 9\<rparr>)"
proof -
  let ?s = "\<lparr>buffer = [0x00, 0x05, 0x61, 0x62 :: byte], offset = 0\<rparr>"
  let ?b = "\<lparr>buffer = [0x00, 0x00, 0x00, 0x05, 0x01, 0x02 :: byte], offset = 0\<rparr>"
  have s: "readInt16 ?s = (Inr 5, ?s\<lparr>offset := 2\<rparr>)"
    by code_simp
  have b: "readInt32 ?b = (Inr 5, ?b\<lparr>offset := 4\<rparr>)"
    by code_simp
  have t: "Buffer_toString_utf8 [0x61, 0x62] = ''ab''"
    by code_simp
  show ?thesis
    using reads_beyond_the_end [of "\<lparr>buffer = [], offset = 0\<rparr>"]
      reads_beyond_the_end [of "\<lparr>buffer = [0x01], offset = 0\<rparr>"]
      reads_beyond_the_end [of "\<lparr>buffer = [0x01, 0x02], offset = 0\<rparr>"]
      reads_beyond_the_end [of "\<lparr>buffer = [1, 2, 3, 4, 5, 6, 7, 8], offset = 1\<rparr>"]
      reads_beyond_the_end [of ?s 5 "?s\<lparr>offset := 2\<rparr>"]
      reads_beyond_the_end [of ?b 5 "?b\<lparr>offset := 4\<rparr>"]
      s b t
    by simp
qed

text \<open>C2, amended: at an offset that is not negative, \<open>slice(size)\<close> with \<open>size\<close> greater
  than the number of remaining bytes does not fail: it returns a decoder over the bytes that
  remain and leaves the offset as it was; \<open>readBytes\<close> with such an explicit length (other
  than \<open>-1\<close>, which yields null) returns the bytes that remain and advances the offset by the
  full length.\<close>

theorem slice_truncates:
  assumes "0 \<le> offset d" "int (length (buffer d)) - offset d < sz"
  shows "slice sz d = (Inr (new_Decoder (drop (nat (offset d)) (buffer d))), d)
       \<and> (sz \<noteq> - 1 \<longrightarrow>
            readBytes (Some sz) d =
              (Inr (Some (drop (nat (offset d)) (buffer d))), d\<lparr>offset := offset d + sz\<rparr>))"
  using assms by (simp add: slice_def readBytes_def Buffer_slice_truncated)

text \<open>C2 as stated fails: with two bytes left, \<open>slice(5)\<close> and \<open>readBytes(5)\<close> return the two
  bytes.\<close>

theorem slice_truncates_counterexample:
  "slice 5 \<lparr>buffer = [1, 2, 3], offset = 1\<rparr>
     = (Inr \<lparr>buffer = [2, 3], offset = 0\<rparr>, \<lparr>buffer = [1, 2, 3], offset = 1\<rparr>)
   \<and> readBytes (Some 5) \<lparr>buffer = [1, 2, 3], offset = 1\<rparr>
     = (Inr (Some [2, 3]), \<lparr>buffer = [1, 2, 3], offset = 6\<rparr>)"
  by code_simp

text \<open>Two bytes left of four, four requested.\<close>

theorem slice_truncates_witness:
  "slice 4 \<lparr>buffer = [9, 8, 7, 6], offset = 2\<rparr>
     = (Inr \<lparr>buffer = [7, 6], offset = 0\<rparr>, \<lparr>buffer = [9, 8, 7, 6], offset = 2\<rparr>)
   \<and> readBytes (Some 4) \<lparr>buffer = [9, 8, 7, 6], offset = 2\<rparr>
     = (Inr (Some [7, 6]), \<lparr>buffer = [9, 8, 7, 6], offset = 6\<rparr>)"
  using slice_truncates [of "\<lparr>buffer = [9, 8, 7, 6], offset = 2\<rparr>" 4]
  by (simp add: new_Decoder_def)

section \<open>How the offset moves\<close>

text \<open>Every pass of the varint loops moves the offset one byte forward.\<close>

lemma readVarInt_loop_offset:
  "offset d < offset (snd (readVarInt_loop d result i))"
proof (induction d result i rule: readVarInt_loop.induct)
  case (1 d result i)
  show ?case
  proof (cases "js_ge (Buffer_index (buffer d) (offset d)) MOST_SIGNIFICANT_BIT")
    case True
    have "offset (d\<lparr>offset := offset d + 1\<rparr>)
            < offset (snd (readVarInt_loop (d\<lparr>offset := offset d + 1\<rparr>)
                (js_add result
                   (js_shl (js_band (Buffer_index (buffer d) (offset d)) OTHER_BITS) i))
                (i + 7)))"
      using True by (intro "1.IH") simp_all
    then show ?thesis
      using True by (subst readVarInt_loop.simps) (simp add: Let_def)
  next
    case False
    then show ?thesis
      by (subst readVarInt_loop.simps) (simp add: Let_def)
  qed
qed

lemma readVarLong_loop_offset:
  "offset d < offset (snd (readVarLong_loop d result i))"
proof (induction d result i rule: readVarLong_loop.induct)
  case (1 d result i)
  show ?case
  proof (cases "js_ge (Buffer_index (buffer d) (offset d)) MOST_SIGNIFICANT_BIT")
    case True
    have "offset (d\<lparr>offset := offset d + 1\<rparr>)
            < offset (snd (readVarLong_loop (d\<lparr>offset := offset d + 1\<rparr>)
                (Long_add result (Long_shiftLeft (Long_fromInt
                   (sint (js_band (Buffer_index (buffer d) (offset d)) OTHER_BITS))) i))
                (i + 7)))"
      using True by (intro "1.IH") simp_all
    then show ?thesis
      using True by (subst readVarLong_loop.simps) (simp add: Let_def)
  next
    case False
    then show ?thesis
      by (subst readVarLong_loop.simps) (simp add: Let_def)
  qed
qed

text \<open>C3, amended: only the fixed-width reads check the offset, and \<open>readString\<close> and
  \<open>readBytes()\<close> check it only through the fixed-width read of their length prefix.
  \<open>readInt8/16/32/64\<close> succeed exactly when \<open>0 \<le> offset\<close> and
  \<open>offset + width \<le> length(buffer)\<close>, and then move the offset forward by exactly the width;
  otherwise, in particular whenever the read would move the offset past \<open>length(buffer)\<close>,
  they fail and leave the decoder as it was. \<open>readString\<close> and \<open>readBytes()\<close> fail, leaving
  the decoder as it was, exactly when their prefix of 2 resp. 4 bytes cannot be read;
  otherwise they succeed and move the offset by the width of the prefix plus the decoded
  length, whatever it is (by the width alone after a prefix of \<open>-1\<close>). \<open>readVarInt\<close>,
  \<open>readVarLong\<close>, \<open>readAll\<close>, \<open>forward(n)\<close> and \<open>readBytes(n)\<close> never fail: \<open>readVarInt\<close> and
  \<open>readVarLong\<close> move the offset forward by at least 1, \<open>readAll\<close> by the length of the
  buffer, \<open>forward(n)\<close> and \<open>readBytes(n)\<close> by \<open>n\<close> (\<open>readBytes(-1)\<close> by nothing). None of
  these amounts depends on how the result compares with \<open>length(buffer)\<close>, so the offset
  does not decrease across an operation unless that amount is negative.\<close>

theorem offset_movement:
  "(0 \<le> offset d \<and> offset d + 1 \<le> int (length (buffer d))
      \<longrightarrow> (\<exists>v. readInt8 d = (Inr v, d\<lparr>offset := offset d + 1\<rparr>)))
   \<and> (\<not> (0 \<le> offset d \<and> offset d + 1 \<le> int (length (buffer d)))
      \<longrightarrow> readInt8 d = (Inl RangeError, d))
   \<and> (0 \<le> offset d \<and> offset d + 2 \<le> int (length (buffer d))
      \<longrightarrow> (\<exists>v. readInt16 d = (Inr v, d\<lparr>offset := offset d + 2\<rparr>)))
   \<and> (\<not> (0 \<le> offset d \<and> offset d + 2 \<le> int (length (buffer d)))
      \<longrightarrow> readInt16 d = (Inl RangeError, d))
   \<and> (0 \<le> offset d \<and> offset d + 4 \<le> int (length (buffer d))
      \<longrightarrow> (\<exists>v. readInt32 d = (Inr v, d\<lparr>offset := offset d + 4\<rparr>)))
   \<and> (\<not> (0 \<le> offset d \<and> offset d + 4 \<le> int (length (buffer d)))
      \<longrightarrow> readInt32 d = (Inl RangeError, d))
   \<and> (0 \<le> offset d \<and> offset d + 8 \<le> int (length (buffer d))
      \<longrightarrow> (\<exists>v. readInt64 d = (Inr v, d\<lparr>offset := offset d + 8\<rparr>)))
   \<and> (\<not> (0 \<le> offset d \<and> offset d + 8 \<le> int (length (buffer d)))
      \<longrightarrow> readInt64 d = (Inl Error, d))
   \<and> (0 \<le> offset d \<and> offset d + 2 \<le> int (length (buffer d))
      \<longrightarrow> (\<exists>v. fst (readString d) = Inr v))
   \<and> (\<not> (0 \<le> offset d \<and> offset d + 2 \<le> int (length (buffer d)))
      \<longrightarrow> readString d = (Inl RangeError, d))
   \<and> (readInt16 d = (Inr len, d1) \<longrightarrow>
        offset (snd (readString d)) = (if len = - 1 then offset d + 2 else offset d + 2 + len))
   \<and> (0 \<le> offset d \<and> offset d + 4 \<le> int (length (buffer d))
      \<longrightarrow> (\<exists>v. fst (readBytes None d) = Inr v))
   \<and> (\<not> (0 \<le> offset d \<and> offset d + 4 \<le> int (length (buffer d)))
      \<longrightarrow> readBytes None d = (Inl RangeError, d))
   \<and> (readInt32 d = (Inr len, d1) \<longrightarrow>
        offset (snd (readBytes None d)) = (if len = - 1 then offset d + 4 else offset d + 4 + len))
   \<and> (\<exists>v. fst (readVarInt d) = Inr v) \<and> offset d < offset (snd (readVarInt d))
   \<and> (\<exists>v. fst (readVarLong d) = Inr v) \<and> offset d < offset (snd (readVarLong d))
   \<and> (\<exists>v. fst (readAll d) = Inr v)
   \<and> offset (snd (readAll d)) = offset d + int (length (buffer d))
   \<and> fst (forward sz d) = Inr () \<and> offset (snd (forward sz d)) = offset d + sz
   \<and> (\<exists>v. fst (readBytes (Some sz) d) = Inr v)
   \<and> offset (snd (readBytes (Some sz) d)) = (if sz = - 1 then offset d else offset d + sz)"
proof -
  have i8: "0 \<le> offset d \<and> offset d + 1 \<le> int (length (buffer d))
      \<longrightarrow> (\<exists>v. readInt8 d = (Inr v, d\<lparr>offset := offset d + 1\<rparr>))"
    by (simp add: readInt8_cases)
  have o8: "\<not> (0 \<le> offset d \<and> offset d + 1 \<le> int (length (buffer d)))
      \<longrightarrow> readInt8 d = (Inl RangeError, d)"
    by (simp add: readInt8_cases)
  have i16: "0 \<le> offset d \<and> offset d + 2 \<le> int (length (buffer d))
      \<longrightarrow> (\<exists>v. readInt16 d = (Inr v, d\<lparr>offset := offset d + 2\<rparr>))"
    by (simp add: readInt16_cases)
  have o16: "\<not> (0 \<le> offset d \<and> offset d + 2 \<le> int (length (buffer d)))
      \<longrightarrow> readInt16 d = (Inl RangeError, d)"
    by (simp add: readInt16_cases)
  have i32: "0 \<le> offset d \<and> offset d + 4 \<le> int (length (buffer d))
      \<longrightarrow> (\<exists>v. readInt32 d = (Inr v, d\<lparr>offset := offset d + 4\<rparr>))"
    by (simp add: readInt32_cases)
  have o32: "\<not> (0 \<le> offset d \<and> offset d + 4 \<le> int (length (buffer d)))
      \<longrightarrow> readInt32 d = (Inl RangeError, d)"
    by (simp add: readInt32_cases)
  have i64: "0 \<le> offset d \<and> offset d + 8 \<le> int (length (buffer d))
      \<longrightarrow> (\<exists>v. readInt64 d = (Inr v, d\<lparr>offset := offset d + 8\<rparr>))"
    by (simp add: readInt64_def readBigInt64BE_def Buffer_index_def INT64_SIZE_def Let_def)
  have o64: "\<not> (0 \<le> offset d \<and> offset d + 8 \<le> int (length (buffer d)))
      \<longrightarrow> readInt64 d = (Inl Error, d)"
    by (subst readInt64_cases) simp
  have istr: "0 \<le> offset d \<and> offset d + 2 \<le> int (length (buffer d))
      \<longrightarrow> (\<exists>v. fst (readString d) = Inr v)"
    by (simp add: readString_def readInt16_cases Let_def)
  have ostr: "\<not> (0 \<le> offset d \<and> offset d + 2 \<le> int (length (buffer d)))
      \<longrightarrow> readString d = (Inl RangeError, d)"
    by (simp add: readString_def readInt16_cases)
  have str: "readInt16 d = (Inr len, d1) \<longrightarrow>
        offset (snd (readString d)) = (if len = - 1 then offset d + 2 else offset d + 2 + len)"
    using readInt16_Inr [of d len d1] by (auto simp: readString_def Let_def)
  have ibytes: "0 \<le> offset d \<and> offset d + 4 \<le> int (length (buffer d))
      \<longrightarrow> (\<exists>v. fst (readBytes None d) = Inr v)"
    by (simp add: readBytes_def readInt32_cases Let_def)
  have obytes: "\<not> (0 \<le> offset d \<and> offset d + 4 \<le> int (length (buffer d)))
      \<longrightarrow> readBytes None d = (Inl RangeError, d)"
    by (simp add: readBytes_def readInt32_cases)
  have pbytes: "readInt32 d = (Inr len, d1) \<longrightarrow>
        offset (snd (readBytes None d)) = (if len = - 1 then offset d + 4 else offset d + 4 + len)"
    using readInt32_Inr [of d len d1] by (auto simp: readBytes_def Let_def)
  have n32: "\<exists>v. fst (readVarInt d) = Inr v"
    by (simp add: readVarInt_def split_beta)
  have v32: "offset d < offset (snd (readVarInt d))"
    using readVarInt_loop_offset [of d 0 0] by (simp add: readVarInt_def split_beta)
  have n64: "\<exists>v. fst (readVarLong d) = Inr v"
    by (simp add: readVarLong_def split_beta)
  have v64: "offset d < offset (snd (readVarLong d))"
    using readVarLong_loop_offset [of d "Long_fromInt 0" 0]
    by (simp add: readVarLong_def split_beta)
  have nall: "\<exists>v. fst (readAll d) = Inr v"
    by (simp add: readAll_def Let_def)
  have all: "offset (snd (readAll d)) = offset d + int (length (buffer d))"
    by (simp add: readAll_def Buffer_byteLength_def Let_def)
  have nfwd: "fst (forward sz d) = Inr ()"
    by (simp add: forward_def)
  have fwd: "offset (snd (forward sz d)) = offset d + sz"
    by (simp add: forward_def)
  have nbytes: "\<exists>v. fst (readBytes (Some sz) d) = Inr v"
    by (simp add: readBytes_def Let_def)
  have bytes: "offset (snd (readBytes (Some sz) d)) = (if sz = - 1 then offset d else offset d + sz)"
    by (simp add: readBytes_def)
  show ?thesis
    by (intro conjI)
       (fact i8 o8 i16 o16 i32 o32 i64 o64 istr ostr str ibytes obytes pbytes
          n32 v32 n64 v64 nall all nfwd fwd nbytes bytes)+
qed

text \<open>Fixed-width reads and length-prefixed reads inside and outside the buffer, among them
  a string with a negative length, and the unchecked operations, at concrete decoders.\<close>

theorem offset_movement_witness:
  "readInt8 \<lparr>buffer = [0x7F], offset = 0\<rparr> = (Inr 127, \<lparr>buffer = [0x7F], offset = 1\<rparr>)
   \<and> readInt16 \<lparr>buffer = [0xFF, 0xFD], offset = 0\<rparr>
        = (Inr (- 3), \<lparr>buffer = [0xFF, 0xFD], offset = 2\<rparr>)
   \<and> offset (snd (readString \<lparr>buffer = [0xFF, 0xFD], offset = 0\<rparr>)) = - 1
   \<and> readInt32 \<lparr>buffer = [0, 0, 0, 1, 9], offset = 0\<rparr>
        = (Inr 1, \<lparr>buffer = [0, 0, 0, 1, 9], offset = 4\<rparr>)
   \<and> offset (snd (readBytes None \<lparr>buffer = [0, 0, 0, 1, 9], offset = 0\<rparr>)) = 5
   \<and> readInt64 \<lparr>buffer = [0, 0, 0, 0, 0, 0, 0, 1], offset = 0\<rparr>
        = (Inr 1, \<lparr>buffer = [0, 0, 0, 0, 0, 0, 0, 1], offset = 8\<rparr>)
   \<and> readInt8 \<lparr>buffer = [], offset = 0\<rparr> = (Inl RangeError, \<lparr>buffer = [], offset = 0\<rparr>)
   \<and> readInt16 \<lparr>buffer = [], offset = 0\<rparr> = (Inl RangeError, \<lparr>buffer = [], offset = 0\<rparr>)
   \<and> readInt32 \<lparr>buffer = [], offset = 0\<rparr> = (Inl RangeError, \<lparr>buffer = [], offset = 0\<rparr>)
   \<and> readInt64 \<lparr>buffer = [], offset = 0\<rparr> = (Inl Error, \<lparr>buffer = [], offset = 0\<rparr>)
   \<and> readString \<lparr>buffer = [], offset = 0\<rparr> = (Inl RangeError, \<lparr>buffer = [], offset = 0\<rparr>)
   \<and> readBytes None \<lparr>buffer = [], offset = 0\<rparr>
        = (Inl RangeError, \<lparr>buffer = [], offset = 0\<rparr>)
   \<and> (\<exists>v. fst (readString \<lparr>buffer = [0xFF, 0xFD], offset = 0\<rparr>) = Inr v)
   \<and> (\<exists>v. fst (readBytes None \<lparr>buffer = [0, 0, 0, 1, 9], offset = 0\<rparr>) = Inr v)
   \<and> 0 < offset (snd (readVarInt \<lparr>buffer = [], offset = 0\<rparr>))
   \<and> offset (snd (readAll \<lparr>buffer = [0x7F], offset = 0\<rparr>)) = 1
   \<and> offset (snd (forward (- 2) \<lparr>buffer = [], offset = 0\<rparr>)) = - 2"
proof -
  let ?a = "\<lparr>buffer = [0x7F :: byte], offset = 0\<rparr>"
  let ?b = "\<lparr>buffer = [0xFF, 0xFD :: byte], offset = 0\<rparr>"
  let ?c = "\<lparr>buffer = [0, 0, 0, 1, 9 :: byte], offset = 0\<rparr>"
  let ?e = "\<lparr>buffer = [0, 0, 0, 0, 0, 0, 0, 1 :: byte], offset = 0\<rparr>"
  let ?z = "\<lparr>buffer = [] :: byte list, offset = 0\<rparr>"
  have a: "readInt8 ?a = (Inr 127, ?a\<lparr>offset := 1\<rparr>)"
    by code_simp
  have b: "readInt16 ?b = (Inr (- 3), ?b\<lparr>offset := 2\<rparr>)"
    by code_simp
  have c: "readInt32 ?c = (Inr 1, ?c\<lparr>offset := 4\<rparr>)"
    by code_simp
  have e: "readInt64 ?e = (Inr 1, ?e\<lparr>offset := 8\<rparr>)"
    by code_simp
  show ?thesis
    using offset_movement [of ?a]
      offset_movement [of ?b "- 3" "?b\<lparr>offset := 2\<rparr>"]
      offset_movement [of ?c 1 "?c\<lparr>offset := 4\<rparr>"]
      offset_movement [of ?e]
      offset_movement [of ?z 0 ?z "- 2"]
      a b c e
    by simp
qed

text \<open>C3 as stated fails. A string whose prefix decodes as \<open>-3\<close> moves the offset back from
  2 to 1; \<open>readAll\<close>, \<open>forward\<close> and \<open>readVarInt\<close> move it past the end of the buffer
  without failing.\<close>

theorem offset_invariant_counterexample:
  "readString \<lparr>buffer = [0x00, 0x00, 0xFF, 0xFD], offset = 2\<rparr>
     = (Inr (Some ''''), \<lparr>buffer = [0x00, 0x00, 0xFF, 0xFD], offset = 1\<rparr>)
   \<and> readAll \<lparr>buffer = [0x01, 0x02], offset = 1\<rparr>
     = (Inr [0x02], \<lparr>buffer = [0x01, 0x02], offset = 3\<rparr>)
   \<and> forward 5 \<lparr>buffer = [0x01], offset = 0\<rparr> = (Inr (), \<lparr>buffer = [0x01], offset = 5\<rparr>)
   \<and> readVarInt \<lparr>buffer = [0x80], offset = 0\<rparr> = (Inr 0, \<lparr>buffer = [0x80], offset = 2\<rparr>)"
  by code_simp

end
